theory Spec2Isabelle
  imports Main "HOL-Library.Multiset" "HOL-Library.Sublist"
begin

section \<open>Data model\<close>

text \<open>
  A Python \<open>str\<close> is a sequence of code points. The three algorithms of the
  conversion engine only compare code points and cut strings between them, so there the
  code-point type is a type variable \<open>'c\<close> and a string is a \<open>'c list\<close>. The
  dispatch around them uses string literals of the source (\<open>"ipa"\<close>, \<open>"012"\<close>);
  there code points are natural numbers and \<open>lit\<close> embeds a literal.

  A \<open>dict\<close> is an association list in insertion order; \<open>k in d\<close> and \<open>d[k]\<close> are
  \<open>map_of d k\<close>.
\<close>

type_synonym 'c str = "'c list"
type_synonym 'c dict = "('c str \<times> 'c str) list"
type_synonym codepoint = nat
type_synonym pystr = "codepoint list"

definition lit :: "string \<Rightarrow> pystr" where
  "lit s = map of_char s"

text \<open>The exceptions the modelled functions can raise.\<close>

datatype error =
    MaxEmptySequence           \<comment> \<open>ValueError of \<open>max()\<close> on an empty iterable\<close>
  | InvalidCode pystr          \<comment> \<open>ValueError: "<code> is not a valid phonecode. ..."\<close>
  | InvalidPairing pystr pystr \<comment> \<open>ValueError: "Phonecode pairing (in, out) is not valid. ..."\<close>
  | TimitUnsupported           \<comment> \<open>ValueError: "Converting to 'timit' is unsupported, ..."\<close>
  | MissingKey                 \<comment> \<open>KeyError of a subscript \<open>d[k]\<close> with \<open>k\<close> not in \<open>d\<close>\<close>

datatype exception_class = ValueError | KeyError

fun class_of :: "error \<Rightarrow> exception_class" where
  "class_of MaxEmptySequence = ValueError"
| "class_of (InvalidCode c) = ValueError"
| "class_of (InvalidPairing a b) = ValueError"
| "class_of TimitUnsupported = ValueError"
| "class_of MissingKey = KeyError"

text \<open>\<open>s[i:j]\<close> for non-negative \<open>i\<close>, \<open>j\<close>: clamped at the end, empty when \<open>j \<le> i\<close>.\<close>

definition slice :: "'a list \<Rightarrow> nat \<Rightarrow> nat \<Rightarrow> 'a list" where
  "slice s i j = take (j - i) (drop i s)"

text \<open>\<open>max(xs)\<close> raises on an empty sequence.\<close>

fun py_max :: "nat list \<Rightarrow> error + nat" where
  "py_max [] = Inl MaxEmptySequence"
| "py_max (x # xs) = Inr (fold max xs x)"

section \<open>translate_string\<close>

text \<open>
  A lattice entry is the tuple
  \<open>(pathcost to s[(n-m):n], n-m, translation of s[(n-m):n], True/False)\<close>.
\<close>

type_synonym 'c entry = "nat \<times> nat \<times> 'c str \<times> bool"

definition symcost :: nat where "symcost = 1"
definition oovcost :: nat where "oovcost = 10"

fun pathcost :: "'c entry \<Rightarrow> nat" where "pathcost (c, p, tr, fl) = c"
fun prev :: "'c entry \<Rightarrow> nat" where "prev (c, p, tr, fl) = p"
fun symbol :: "'c entry \<Rightarrow> 'c str" where "symbol (c, p, tr, fl) = tr"
fun translated :: "'c entry \<Rightarrow> bool" where "translated (c, p, tr, fl) = fl"

text \<open>
  The body of the inner loop for one key length \<open>m\<close>:
  \<^verbatim>\<open>if s[(n-m):n] in d and symcost + lattice[n-m][0] < lattice[n][0]:
    lattice[n] = (symcost + lattice[n-m][0], n-m, d[s[(n-m):n]], True)\<close>
\<close>

definition relax :: "'c str \<Rightarrow> 'c dict \<Rightarrow> nat \<Rightarrow> nat \<Rightarrow> 'c entry list \<Rightarrow> 'c entry list" where
  "relax s d n m lattice =
     (case map_of d (slice s (n - m) n) of
        None \<Rightarrow> lattice
      | Some tr \<Rightarrow>
          if symcost + pathcost (lattice ! (n - m)) < pathcost (lattice ! n)
          then lattice[n := (symcost + pathcost (lattice ! (n - m)), n - m, tr, True)]
          else lattice)"

text \<open>
  The body of the outer loop for one position \<open>n\<close>: append the record that takes
  \<open>s[n-1]\<close> as untranslatable, then scan \<open>m\<close> over \<open>range(1, min(n+1, maxsym+1))\<close>.
\<close>

definition arrive :: "'c str \<Rightarrow> 'c dict \<Rightarrow> nat \<Rightarrow> nat \<Rightarrow> 'c entry list \<Rightarrow> 'c entry list" where
  "arrive s d maxsym n lattice =
     fold (relax s d n) [1 ..< min (n + 1) (maxsym + 1)]
       (lattice @ [(oovcost + pathcost (lattice ! (n - 1)), n - 1, slice s (n - 1) n, False)])"

definition build_lattice :: "'c str \<Rightarrow> 'c dict \<Rightarrow> nat \<Rightarrow> 'c entry list" where
  "build_lattice s d maxsym =
     fold (arrive s d maxsym) [1 ..< length s + 1] [(0, 0, [], True)]"

text \<open>
  The back-trace \<^verbatim>\<open>while n > 0: tl.append(lattice[n][2]); translated.append(lattice[n][3]); n = lattice[n][1]\<close>.
  Nothing in the loop itself bounds the number of iterations, so not returning is the
  value \<open>None\<close>.
\<close>

partial_function (option) backtrace ::
  "'c entry list \<Rightarrow> nat \<Rightarrow> 'c str list \<Rightarrow> bool list \<Rightarrow> ('c str list \<times> bool list) option" where
  "backtrace lattice n tls tfs =
     (if n > 0
      then backtrace lattice (prev (lattice ! n))
             (tls @ [symbol (lattice ! n)]) (tfs @ [translated (lattice ! n)])
      else Some (tls, tfs))"

text \<open>
  \<open>translate_string(s, d)\<close>. The result is \<open>None\<close> when the call does not return,
  \<open>Some (Inl e)\<close> when it raises \<open>e\<close>, and \<open>Some (Inr (tl, ttf))\<close> when it returns.
\<close>

definition translate_string ::
  "'c str \<Rightarrow> 'c dict \<Rightarrow> (error + 'c str list \<times> bool list) option" where
  "translate_string s d =
     (case py_max (map (\<lambda>k. length k) (map fst d)) of
        Inl e \<Rightarrow> Some (Inl e)
      | Inr maxsym \<Rightarrow>
          (case backtrace (build_lattice s d maxsym) (length s) [] [] of
             None \<Rightarrow> None
           | Some (tls, tfs) \<Rightarrow> Some (Inr (rev tls, rev tfs))))"

declare backtrace.simps [code]

subsection \<open>Notions used to state the properties of translate_string\<close>

text \<open>
  The arrival records that the scan at position \<open>n\<close> considers, in the order of the scan:
  first the record appended on the assumption that \<open>s[n-1]\<close> is untranslatable
  (\<open>oov\<close>), then one record per key length \<open>m = 1, 2, ...\<close> whose substring
  \<open>s[(n-m):n]\<close> is a key (\<open>hit\<close>). \<open>pick\<close> is the strict comparison of the
  inner loop: the candidate replaces the current record only when it is cheaper.
\<close>

definition pick :: "'c entry \<Rightarrow> 'c entry \<Rightarrow> 'c entry" where
  "pick c cur = (if pathcost c < pathcost cur then c else cur)"

definition hit :: "'c str \<Rightarrow> 'c dict \<Rightarrow> 'c entry list \<Rightarrow> nat \<Rightarrow> nat \<Rightarrow> 'c entry option" where
  "hit s d lattice n m =
     map_option (\<lambda>tr. (symcost + pathcost (lattice ! (n - m)), n - m, tr, True))
       (map_of d (slice s (n - m) n))"

definition oov :: "'c str \<Rightarrow> 'c entry list \<Rightarrow> nat \<Rightarrow> 'c entry" where
  "oov s lattice n = (oovcost + pathcost (lattice ! (n - 1)), n - 1, slice s (n - 1) n, False)"

definition candidates :: "'c str \<Rightarrow> 'c dict \<Rightarrow> nat \<Rightarrow> nat \<Rightarrow> 'c entry list \<Rightarrow> 'c entry list" where
  "candidates s d maxsym n lattice =
     oov s lattice n # List.map_filter (hit s d lattice n) [1 ..< min (n + 1) (maxsym + 1)]"

text \<open>
  A decomposition of \<open>s\<close> is a list of consumed substrings, each flagged as a table
  hit (a non-empty key of \<open>d\<close>) or as a miss (a single character), whose
  concatenation is \<open>s\<close>. A hit costs \<open>symcost\<close>, a miss \<open>oovcost\<close>.
\<close>

fun valid_piece :: "'c dict \<Rightarrow> 'c str \<times> bool \<Rightarrow> bool" where
  "valid_piece d (seg, fl) = (if fl then seg \<noteq> [] \<and> map_of d seg \<noteq> None else length seg = 1)"

definition decomposition :: "'c dict \<Rightarrow> 'c str \<Rightarrow> ('c str \<times> bool) list \<Rightarrow> bool" where
  "decomposition d s segs = (concat (map fst segs) = s \<and> list_all (valid_piece d) segs)"

definition path_cost :: "bool list \<Rightarrow> nat" where
  "path_cost tf = sum_list (map (\<lambda>fl. if fl then symcost else oovcost) tf)"

text \<open>
  The invariant of the outer loop after position \<open>k\<close>: every entry points to an
  earlier position and accounts for its cost, and no candidate at a position is cheaper
  than the entry recorded there.
\<close>

definition entry_ok :: "'c str \<Rightarrow> 'c dict \<Rightarrow> 'c entry list \<Rightarrow> nat \<Rightarrow> bool" where
  "entry_ok s d lat j =
     (prev (lat ! j) < j \<and>
      (if translated (lat ! j)
       then pathcost (lat ! j) = symcost + pathcost (lat ! prev (lat ! j))
          \<and> map_of d (slice s (prev (lat ! j)) j) = Some (symbol (lat ! j))
       else pathcost (lat ! j) = oovcost + pathcost (lat ! prev (lat ! j))
          \<and> prev (lat ! j) = j - 1 \<and> symbol (lat ! j) = slice s (j - 1) j))"

definition relaxed :: "'c str \<Rightarrow> 'c dict \<Rightarrow> nat \<Rightarrow> 'c entry list \<Rightarrow> nat \<Rightarrow> bool" where
  "relaxed s d maxsym lat j =
     (pathcost (lat ! j) \<le> oovcost + pathcost (lat ! (j - 1)) \<and>
      (\<forall>m. 1 \<le> m \<and> m \<le> j \<and> m \<le> maxsym \<and> map_of d (slice s (j - m) j) \<noteq> None
           \<longrightarrow> pathcost (lat ! j) \<le> symcost + pathcost (lat ! (j - m))))"

definition lattice_inv :: "'c str \<Rightarrow> 'c dict \<Rightarrow> nat \<Rightarrow> nat \<Rightarrow> 'c entry list \<Rightarrow> bool" where
  "lattice_inv s d maxsym k lat =
     (length lat = k + 1 \<and> lat ! 0 = (0, 0, [], True) \<and>
      (\<forall>j. 1 \<le> j \<and> j \<le> k \<longrightarrow> entry_ok s d lat j \<and> relaxed s d maxsym lat j))"

section \<open>attach_tones_to_vowels\<close>

text \<open>
  \<open>tones\<close> and \<open>vowels\<close> are typed \<open>Iterable[str] | str\<close>, and the settings of the
  source pass both kinds (\<open>"012"\<close> is a \<open>str\<close>). \<open>x in c\<close> is a substring test when
  \<open>c\<close> is a \<open>str\<close> and membership when it is a collection of strings.
\<close>

datatype 'c container = Str "'c str" | Coll "'c str list"

fun contains :: "'c container \<Rightarrow> 'c str \<Rightarrow> bool" where
  "contains (Str s) x = sublist x s"
| "contains (Coll xs) x = (x \<in> set xs)"

text \<open>\<open>ol[v] in vowels or (len(ol[v]) > 1 and ol[v][0] in vowels)\<close>\<close>

definition is_vowel :: "'c container \<Rightarrow> 'c str \<Rightarrow> bool" where
  "is_vowel vowels x = (contains vowels x \<or> (length x > 1 \<and> contains vowels [hd x]))"

text \<open>\<open>ol[0:t] + ol[(t + 1):]\<close> for \<open>t \<ge> 0\<close>\<close>

definition remove_at :: "'a list \<Rightarrow> nat \<Rightarrow> 'a list" where
  "remove_at ol t = take t ol @ drop (t + 1) ol"

text \<open>
  One iteration of the loop on the state \<open>(ol, v, t)\<close>, entered with
  \<open>0 \<le> v < len(ol)\<close>. The indices are Python integers: \<open>t = -1\<close> is the
  "no pending tone" value and \<open>v\<close> leaves the list on either side.
\<close>

definition attach_step ::
  "'c container \<Rightarrow> 'c container \<Rightarrow> int \<Rightarrow> int \<Rightarrow> 'c str list \<times> int \<times> int \<Rightarrow> 'c str list \<times> int \<times> int" where
  "attach_step tones vowels searchstep catdir st =
     (case st of (ol, v, t) \<Rightarrow>
        let (ol1, t1) =
              (if is_vowel vowels (ol ! nat v) \<and> t \<ge> 0
               then (remove_at
                       (ol[nat v := (if catdir \<ge> 0 then ol ! nat v @ ol ! nat t
                                     else ol ! nat t @ ol ! nat v)])
                       (nat t),
                     - 1)
               else (ol, t));
            t2 = (if v < int (length ol1) \<and> contains tones (ol1 ! nat v) then v else t1)
        in (ol1, v + searchstep, t2))"

text \<open>
  \<^verbatim>\<open>while 0 <= v and v < len(ol): ...\<close>. With \<open>searchstep = 0\<close> the loop can run
  forever, so not returning is the value \<open>None\<close>.
\<close>

partial_function (option) attach_loop ::
  "'c container \<Rightarrow> 'c container \<Rightarrow> int \<Rightarrow> int \<Rightarrow> 'c str list \<times> int \<times> int \<Rightarrow> 'c str list option" where
  "attach_loop tones vowels searchstep catdir st =
     (if 0 \<le> fst (snd st) \<and> fst (snd st) < int (length (fst st))
      then attach_loop tones vowels searchstep catdir (attach_step tones vowels searchstep catdir st)
      else Some (fst st))"

declare attach_loop.simps [code]

definition attach_tones_to_vowels ::
  "'c str list \<Rightarrow> 'c container \<Rightarrow> 'c container \<Rightarrow> int \<Rightarrow> int \<Rightarrow> 'c str list option" where
  "attach_tones_to_vowels il tones vowels searchstep catdir =
     attach_loop tones vowels searchstep catdir
       (il, (if searchstep > 0 then 0 else int (length il) - 1), - 1)"

section \<open>Post-processing reduction\<close>

text \<open>
  \<open>_find_cascading_keys_in_symbol_mapping\<close>: for every key but the last, in order, with
  a non-empty value, the later keys that contain that value as a substring.
\<close>

definition find_cascading_keys_in_symbol_mapping :: "'c dict \<Rightarrow> ('c str \<times> 'c str) list" where
  "find_cascading_keys_in_symbol_mapping symbol_inventory_map =
     (let ordered_keys = map fst symbol_inventory_map in
      concat (map (\<lambda>i.
          let k1 = ordered_keys ! i;
              current_value = the (map_of symbol_inventory_map k1)
          in if current_value = [] then []
             else map (\<lambda>k2. (k1, k2)) (filter (\<lambda>k2. sublist current_value k2) (drop (i + 1) ordered_keys)))
        [0 ..< length (butlast ordered_keys)]))"

text \<open>\<open>_get_extra_reduction_keys\<close>: \<open>set(reduction_mapping.keys()) - set(original_mapping.values())\<close>\<close>

definition get_extra_reduction_keys :: "'c dict \<Rightarrow> 'c dict \<Rightarrow> 'c str set" where
  "get_extra_reduction_keys original_mapping reduction_mapping =
     set (map fst reduction_mapping) - set (map snd original_mapping)"

text \<open>
  \<open>re.sub(pattern, repl, string)\<close> for a pattern that is an alternation of escaped
  literals, as the regular-expression library defines it. The alternatives are tried in
  order at the current position and the first that matches there is taken; where none
  matches, the character is copied and the search moves on by one. A match is replaced
  by what \<open>repl\<close> returns and the search resumes after it, so the replacement is never
  searched. An empty match is allowed, also right after a non-empty one, but not at the
  position of the empty match just replaced: there (\<open>must_advance\<close>) only a non-empty
  alternative can match. \<open>repl\<close> is called at each match as it is found, and what it
  raises ends the substitution.
\<close>

function re_sub_from ::
  "'c str list \<Rightarrow> ('c str \<Rightarrow> error + 'c str) \<Rightarrow> 'c str \<Rightarrow> bool \<Rightarrow> error + 'c str" where
  "re_sub_from alts repl s must_advance =
     (case find (\<lambda>a. prefix a s \<and> \<not> (must_advance \<and> a = [])) alts of
        Some a \<Rightarrow>
          (case repl a of
             Inl e \<Rightarrow> Inl e
           | Inr r \<Rightarrow>
               (case re_sub_from alts repl (drop (length a) s) (a = []) of
                  Inl e \<Rightarrow> Inl e
                | Inr rest \<Rightarrow> Inr (r @ rest)))
      | None \<Rightarrow>
          (case s of
             [] \<Rightarrow> Inr []
           | c # cs \<Rightarrow>
               (case re_sub_from alts repl cs False of
                  Inl e \<Rightarrow> Inl e
                | Inr rest \<Rightarrow> Inr (c # rest))))"
  by pat_completeness auto
termination
proof (relation "measure (\<lambda>(alts, repl, s, must_advance). 2 * length s + (if must_advance then 0 else 1))")
  show "wf (measure (\<lambda>(alts, repl, s, must_advance). 2 * length s + (if must_advance then 0 else 1)))"
    by simp
next
  fix alts :: "'c str list" and repl :: "'c str \<Rightarrow> error + 'c str" and s :: "'c str"
    and must_advance :: bool and a :: "'c str" and r :: "'c str"
  assume "find (\<lambda>a. prefix a s \<and> \<not> (must_advance \<and> a = [])) alts = Some a"
  then have p: "prefix a s" and adv: "\<not> (must_advance \<and> a = [])"
    by (auto simp: find_Some_iff)
  from p have "length a \<le> length s" by (rule prefix_length_le)
  with adv show "((alts, repl, drop (length a) s, a = []), (alts, repl, s, must_advance))
      \<in> measure (\<lambda>(alts, repl, s, must_advance). 2 * length s + (if must_advance then 0 else 1))"
    by (cases a) auto
next
  fix alts :: "'c str list" and repl :: "'c str \<Rightarrow> error + 'c str" and s :: "'c str"
    and must_advance :: bool and c :: 'c and cs :: "'c str"
  assume "s = c # cs"
  then show "((alts, repl, cs, False), (alts, repl, s, must_advance))
      \<in> measure (\<lambda>(alts, repl, s, must_advance). 2 * length s + (if must_advance then 0 else 1))"
    by simp
qed

text \<open>
  \<open>"|".join(re.escape(k) for k in reduction_mapping.keys())\<close>: one alternative per key, in
  the order of the mapping. The join of no key at all is the empty pattern, which is the
  single empty alternative.
\<close>

definition pattern_alternatives :: "'c dict \<Rightarrow> 'c str list" where
  "pattern_alternatives reduction_mapping =
     (if reduction_mapping = [] then [[]] else map fst reduction_mapping)"

text \<open>\<open>lambda match: reduction_mapping[match.group()]\<close>\<close>

definition replacement :: "'c dict \<Rightarrow> 'c str \<Rightarrow> error + 'c str" where
  "replacement reduction_mapping matched =
     (case map_of reduction_mapping matched of None \<Rightarrow> Inl MissingKey | Some v \<Rightarrow> Inr v)"

text \<open>
  \<open>_post_process_reduction\<close>. \<open>warnings.warn\<close> is the only effect; the result is the
  list of warnings issued and what the function returns or raises.
\<close>

datatype 'c warning = CascadingKeys "('c str \<times> 'c str) list" | ExtraKeys "'c str set"

definition post_process_reduction ::
  "'c str \<Rightarrow> 'c dict \<Rightarrow> 'c dict \<Rightarrow> 'c warning list \<times> (error + 'c str)" where
  "post_process_reduction input_string original_translation_mapping reduction_mapping =
     (let cascading_keys = find_cascading_keys_in_symbol_mapping reduction_mapping;
          w1 = (if length cascading_keys > 0 then [CascadingKeys cascading_keys] else []);
          new_keys = get_extra_reduction_keys original_translation_mapping reduction_mapping;
          w2 = (if new_keys \<noteq> {} then [ExtraKeys new_keys] else [])
      in (w1 @ w2,
          re_sub_from (pattern_alternatives reduction_mapping) (replacement reduction_mapping)
            input_string False))"

section \<open>The conversion entry points\<close>

definition IPA_KEY :: pystr where "IPA_KEY = lit ''ipa''"
definition ARPABET_KEY :: pystr where "ARPABET_KEY = lit ''arpabet''"
definition XSAMPA_KEY :: pystr where "XSAMPA_KEY = lit ''xsampa''"
definition DISC_KEY :: pystr where "DISC_KEY = lit ''disc''"
definition CALLHOME_KEY :: pystr where "CALLHOME_KEY = lit ''callhome''"
definition BUCKEYE_KEY :: pystr where "BUCKEYE_KEY = lit ''buckeye''"
definition TIMIT_KEY :: pystr where "TIMIT_KEY = lit ''timit''"

definition CODES :: "pystr set" where
  "CODES = {IPA_KEY, ARPABET_KEY, XSAMPA_KEY, DISC_KEY, CALLHOME_KEY, BUCKEYE_KEY, TIMIT_KEY}"

text \<open>
  The enumeration \<open>Phonecodes\<close>. The value of a member is the tuple it is declared
  with: \<open>(in_code, out_code)\<close> or \<open>(in_code, out_code, language)\<close>.
\<close>

datatype Phonecodes =
    IPA2XSAMPA | XSAMPA2IPA
  | DISC2IPA | DISC2IPA_NLD | DISC2IPA_ENG | IPA2DISC
  | CALLHOME2IPA_ARZ | CALLHOME2IPA_CMN | CALLHOME2IPA_SPA
  | IPA2CALLHOME_ARZ | IPA2CALLHOME_CMN | IPA2CALLHOME_SPA
  | ARPABET2IPA | IPA2ARPABET
  | TIMIT2IPA
  | BUCKEYE2IPA | IPA2BUCKEYE

definition members :: "Phonecodes list" where
  "members =
     [IPA2XSAMPA, XSAMPA2IPA, DISC2IPA, DISC2IPA_NLD, DISC2IPA_ENG, IPA2DISC,
      CALLHOME2IPA_ARZ, CALLHOME2IPA_CMN, CALLHOME2IPA_SPA,
      IPA2CALLHOME_ARZ, IPA2CALLHOME_CMN, IPA2CALLHOME_SPA,
      ARPABET2IPA, IPA2ARPABET, TIMIT2IPA, BUCKEYE2IPA, IPA2BUCKEYE]"

fun member_value :: "Phonecodes \<Rightarrow> pystr \<times> pystr \<times> pystr option" where
  "member_value IPA2XSAMPA = (IPA_KEY, XSAMPA_KEY, None)"
| "member_value XSAMPA2IPA = (XSAMPA_KEY, IPA_KEY, None)"
| "member_value DISC2IPA = (DISC_KEY, IPA_KEY, None)"
| "member_value DISC2IPA_NLD = (DISC_KEY, IPA_KEY, Some (lit ''nld''))"
| "member_value DISC2IPA_ENG = (DISC_KEY, IPA_KEY, Some (lit ''eng''))"
| "member_value IPA2DISC = (IPA_KEY, DISC_KEY, None)"
| "member_value CALLHOME2IPA_ARZ = (CALLHOME_KEY, IPA_KEY, Some (lit ''arz''))"
| "member_value CALLHOME2IPA_CMN = (CALLHOME_KEY, IPA_KEY, Some (lit ''cmn''))"
| "member_value CALLHOME2IPA_SPA = (CALLHOME_KEY, IPA_KEY, Some (lit ''spa''))"
| "member_value IPA2CALLHOME_ARZ = (IPA_KEY, CALLHOME_KEY, Some (lit ''arz''))"
| "member_value IPA2CALLHOME_CMN = (IPA_KEY, CALLHOME_KEY, Some (lit ''cmn''))"
| "member_value IPA2CALLHOME_SPA = (IPA_KEY, CALLHOME_KEY, Some (lit ''spa''))"
| "member_value ARPABET2IPA = (ARPABET_KEY, IPA_KEY, None)"
| "member_value IPA2ARPABET = (IPA_KEY, ARPABET_KEY, None)"
| "member_value TIMIT2IPA = (TIMIT_KEY, IPA_KEY, None)"
| "member_value BUCKEYE2IPA = (BUCKEYE_KEY, IPA_KEY, None)"
| "member_value IPA2BUCKEYE = (IPA_KEY, BUCKEYE_KEY, None)"

text \<open>
  \<open>Phonecodes.as_member\<close>. The first test looks the 3-tuple
  \<open>(in_code, out_code, language)\<close> up among the values; with \<open>language = None\<close> it
  equals no value, the members without a language having 2-tuples as values. The second
  test looks up \<open>(in_code, out_code)\<close>.
\<close>

definition as_member :: "pystr \<Rightarrow> pystr \<Rightarrow> pystr option \<Rightarrow> error + Phonecodes" where
  "as_member in_code out_code language =
     (case (case language of
              None \<Rightarrow> None
            | Some l \<Rightarrow> find (\<lambda>p. member_value p = (in_code, out_code, Some l)) members) of
        Some p \<Rightarrow> Inr p
      | None \<Rightarrow>
          (case find (\<lambda>p. member_value p = (in_code, out_code, None)) members of
             Some p \<Rightarrow> Inr p
           | None \<Rightarrow> Inl (InvalidPairing in_code out_code)))"

text \<open>
  The module \<open>phonecode_tables\<close> is not part of the sources at hand; the tables the
  dispatch reads from it are the fields of a record that every function below takes as
  a parameter.
\<close>

record phonecode_tables =
  t_ipa2xsampa :: "codepoint dict"
  t_xsampa_and_diac2ipa :: "codepoint dict"
  t_disc2ipa :: "codepoint dict"
  t_disc2ipa_dutch :: "codepoint dict"
  t_disc2ipa_english :: "codepoint dict"
  t_ipa2disc :: "codepoint dict"
  t_callhome2ipa :: "pystr \<Rightarrow> codepoint dict"
  t_ipa2callhome :: "pystr \<Rightarrow> codepoint dict"
  t_arpabet2ipa :: "codepoint dict"
  t_ipa2arpabet :: "codepoint dict"
  t_buckeye2ipa :: "codepoint dict"
  t_ipa2buckeye :: "codepoint dict"
  t_timit2ipa :: "codepoint dict"
  t_ipa_stressmarkers :: "codepoint container"
  t_ipa_tones :: "codepoint container"
  t_ipa_vowels :: "codepoint container"
  t_callhome_vowels :: "pystr \<Rightarrow> codepoint container"
  t_arpabet_vowels :: "codepoint container"

fun phonecode_lookup :: "phonecode_tables \<Rightarrow> Phonecodes \<Rightarrow> codepoint dict" where
  "phonecode_lookup T IPA2XSAMPA = t_ipa2xsampa T"
| "phonecode_lookup T XSAMPA2IPA = t_xsampa_and_diac2ipa T"
| "phonecode_lookup T DISC2IPA = t_disc2ipa T"
| "phonecode_lookup T DISC2IPA_NLD = t_disc2ipa_dutch T"
| "phonecode_lookup T DISC2IPA_ENG = t_disc2ipa_english T"
| "phonecode_lookup T IPA2DISC = t_ipa2disc T"
| "phonecode_lookup T CALLHOME2IPA_ARZ = t_callhome2ipa T (lit ''arz'')"
| "phonecode_lookup T CALLHOME2IPA_CMN = t_callhome2ipa T (lit ''cmn'')"
| "phonecode_lookup T CALLHOME2IPA_SPA = t_callhome2ipa T (lit ''spa'')"
| "phonecode_lookup T IPA2CALLHOME_ARZ = t_ipa2callhome T (lit ''arz'')"
| "phonecode_lookup T IPA2CALLHOME_CMN = t_ipa2callhome T (lit ''cmn'')"
| "phonecode_lookup T IPA2CALLHOME_SPA = t_ipa2callhome T (lit ''spa'')"
| "phonecode_lookup T ARPABET2IPA = t_arpabet2ipa T"
| "phonecode_lookup T IPA2ARPABET = t_ipa2arpabet T"
| "phonecode_lookup T BUCKEYE2IPA = t_buckeye2ipa T"
| "phonecode_lookup T IPA2BUCKEYE = t_ipa2buckeye T"
| "phonecode_lookup T TIMIT2IPA = t_timit2ipa T"

record AttachStressTonesConfig =
  tones :: "codepoint container"
  vowels :: "codepoint container"
  searchstep :: int
  catdir :: int

fun tone_stress_settings :: "phonecode_tables \<Rightarrow> Phonecodes \<Rightarrow> AttachStressTonesConfig option" where
  "tone_stress_settings T CALLHOME2IPA_ARZ =
     Some \<lparr>tones = t_ipa_stressmarkers T, vowels = t_ipa_vowels T, searchstep = - 1, catdir = - 1\<rparr>"
| "tone_stress_settings T CALLHOME2IPA_CMN =
     Some \<lparr>tones = t_ipa_tones T, vowels = t_ipa_vowels T, searchstep = - 1, catdir = 1\<rparr>"
| "tone_stress_settings T CALLHOME2IPA_SPA =
     Some \<lparr>tones = t_ipa_stressmarkers T, vowels = t_ipa_vowels T, searchstep = - 1, catdir = - 1\<rparr>"
| "tone_stress_settings T IPA2CALLHOME_ARZ =
     Some \<lparr>tones = Str (lit ''012''), vowels = t_callhome_vowels T (lit ''arz''), searchstep = 1, catdir = 1\<rparr>"
| "tone_stress_settings T IPA2CALLHOME_CMN =
     Some \<lparr>tones = Str (lit ''012345''), vowels = t_callhome_vowels T (lit ''cmn''), searchstep = - 1, catdir = 1\<rparr>"
| "tone_stress_settings T IPA2CALLHOME_SPA =
     Some \<lparr>tones = Str (lit ''012''), vowels = t_callhome_vowels T (lit ''spa''), searchstep = 1, catdir = 1\<rparr>"
| "tone_stress_settings T ARPABET2IPA =
     Some \<lparr>tones = t_ipa_stressmarkers T, vowels = t_ipa_vowels T, searchstep = - 1, catdir = - 1\<rparr>"
| "tone_stress_settings T IPA2ARPABET =
     Some \<lparr>tones = Str (lit ''012''), vowels = t_arpabet_vowels T, searchstep = 1, catdir = 1\<rparr>"
| "tone_stress_settings T p = None"

definition verify_code :: "pystr \<Rightarrow> error + unit" where
  "verify_code code = (if code \<notin> CODES then Inl (InvalidCode code) else Inr ())"

text \<open>
  \<open>convert\<close>. \<open>str.upper\<close> and \<open>str.strip\<close> are methods of the language and are
  taken as parameters. The result is \<open>None\<close> when the call does not return.
\<close>

definition convert ::
  "phonecode_tables \<Rightarrow> (pystr \<Rightarrow> pystr) \<Rightarrow> (pystr \<Rightarrow> pystr) \<Rightarrow>
   pystr \<Rightarrow> pystr \<Rightarrow> pystr \<Rightarrow> pystr option \<Rightarrow> codepoint dict option \<Rightarrow> (error + pystr) option" where
  "convert T upper strip s0 c0 c1 language post_conversion_mapping =
     (case verify_code c0 of
        Inl e \<Rightarrow> Some (Inl e)
      | Inr _ \<Rightarrow>
     (case verify_code c1 of
        Inl e \<Rightarrow> Some (Inl e)
      | Inr _ \<Rightarrow>
     (case as_member c0 c1 language of
        Inl e \<Rightarrow> Some (Inl e)
      | Inr phonecode_enum \<Rightarrow>
          let translation_mapping = phonecode_lookup T phonecode_enum;
              input_string = (if phonecode_enum \<in> set [ARPABET2IPA, BUCKEYE2IPA, TIMIT2IPA]
                              then upper s0 else s0)
          in
     (case translate_string input_string translation_mapping of
        None \<Rightarrow> None
      | Some (Inl e) \<Rightarrow> Some (Inl e)
      | Some (Inr (mapped_string, ttf)) \<Rightarrow>
     (case (case tone_stress_settings T phonecode_enum of
              None \<Rightarrow> Some mapped_string
            | Some stress_config \<Rightarrow>
                attach_tones_to_vowels mapped_string (tones stress_config) (vowels stress_config)
                  (searchstep stress_config) (catdir stress_config)) of
        None \<Rightarrow> None
      | Some mapped_string' \<Rightarrow>
          let final_string = concat mapped_string' in
     (case post_conversion_mapping of
        None \<Rightarrow> Some (Inr (strip final_string))
      | Some m \<Rightarrow>
     (case snd (post_process_reduction final_string translation_mapping m) of
        Inl e \<Rightarrow> Some (Inl e)
      | Inr final_string' \<Rightarrow> Some (Inr (strip final_string')))))))))"

text \<open>The two entry points for TIMIT.\<close>

definition timit2ipa ::
  "phonecode_tables \<Rightarrow> (pystr \<Rightarrow> pystr) \<Rightarrow> (pystr \<Rightarrow> pystr) \<Rightarrow>
   pystr \<Rightarrow> pystr option \<Rightarrow> codepoint dict option \<Rightarrow> (error + pystr) option" where
  "timit2ipa T upper strip x language post_conversion_mapping =
     convert T upper strip x TIMIT_KEY IPA_KEY language post_conversion_mapping"

definition ipa2timit ::
  "pystr \<Rightarrow> pystr option \<Rightarrow> codepoint dict option \<Rightarrow> (error + pystr) option" where
  "ipa2timit x language post_conversion_mapping = Some (Inl TimitUnsupported)"

section \<open>Properties of translate_string\<close>

lemma map_filter_cong_set:
  "\<forall>x \<in> set xs. f x = g x \<Longrightarrow> List.map_filter f xs = List.map_filter g xs"
  by (induction xs) (simp_all split: option.splits)

lemma set_map_filter:
  "set (List.map_filter f xs) = {y. \<exists>x \<in> set xs. f x = Some y}"
  by (induction xs) (auto split: option.splits)

lemma relax_pick:
  assumes "n < length lat"
  shows "relax s d n m lat = (case hit s d lat n m of None \<Rightarrow> lat | Some c \<Rightarrow> lat[n := pick c (lat ! n)])"
  using assms by (cases "map_of d (slice s (n - m) n)") (auto simp: relax_def hit_def pick_def)

lemma hit_update:
  assumes "1 \<le> m" "1 \<le> n"
  shows "hit s d (lat[n := e]) n m = hit s d lat n m"
proof -
  have "n \<noteq> n - m" using assms by arith
  then have "lat[n := e] ! (n - m) = lat ! (n - m)" by (rule nth_list_update_neq)
  then show ?thesis by (simp add: hit_def)
qed

lemma fold_relax:
  assumes "n < length lat" "1 \<le> n" "\<forall>m \<in> set ms. 1 \<le> m"
  shows "fold (relax s d n) ms lat = lat[n := fold pick (List.map_filter (hit s d lat n) ms) (lat ! n)]"
  using assms
proof (induction ms arbitrary: lat)
  case Nil
  then show ?case by simp
next
  case (Cons m ms)
  have m1: "1 \<le> m" using Cons.prems by simp
  show ?case
  proof (cases "hit s d lat n m")
    case None
    then have "relax s d n m lat = lat" using Cons.prems by (simp add: relax_pick)
    then show ?thesis using Cons None by simp
  next
    case (Some c)
    let ?lat' = "lat[n := pick c (lat ! n)]"
    have r: "relax s d n m lat = ?lat'" using Cons.prems Some by (simp add: relax_pick)
    have len: "n < length ?lat'" using Cons.prems by simp
    have hs: "List.map_filter (hit s d ?lat' n) ms = List.map_filter (hit s d lat n) ms"
    proof -
      have "\<forall>m' \<in> set ms. hit s d ?lat' n m' = hit s d lat n m'"
        using Cons.prems by (simp add: hit_update)
      then show ?thesis by (rule map_filter_cong_set)
    qed
    have "fold (relax s d n) ms ?lat' =
          ?lat'[n := fold pick (List.map_filter (hit s d ?lat' n) ms) (?lat' ! n)]"
      using Cons.IH[OF len] Cons.prems by simp
    then show ?thesis using r Some hs Cons.prems
      by simp
  qed
qed

lemma arrive_eq:
  assumes "length lat = n" "1 \<le> n"
  shows "arrive s d maxsym n lat =
         lat @ [fold pick (List.map_filter (hit s d lat n) [1 ..< min (n + 1) (maxsym + 1)]) (oov s lat n)]"
proof -
  let ?ms = "[1 ..< min (n + 1) (maxsym + 1)]"
  let ?lat0 = "lat @ [oov s lat n]"
  have len: "n < length ?lat0" using assms by simp
  have ms: "\<forall>m \<in> set ?ms. 1 \<le> m" by auto
  have hs: "List.map_filter (hit s d ?lat0 n) ?ms = List.map_filter (hit s d lat n) ?ms"
  proof -
    have "\<forall>m \<in> set ?ms. hit s d ?lat0 n m = hit s d lat n m"
    proof
      fix m assume "m \<in> set ?ms"
      then have "n - m < length lat" using assms by auto
      then show "hit s d ?lat0 n m = hit s d lat n m"
        by (simp add: hit_def nth_append)
    qed
    then show ?thesis by (rule map_filter_cong_set)
  qed
  have "arrive s d maxsym n lat = fold (relax s d n) ?ms ?lat0"
    by (simp add: arrive_def oov_def)
  also have "\<dots> = ?lat0[n := fold pick (List.map_filter (hit s d ?lat0 n) ?ms) (?lat0 ! n)]"
    using fold_relax[OF len assms(2) ms] .
  also have "\<dots> = lat @ [fold pick (List.map_filter (hit s d lat n) ?ms) (oov s lat n)]"
  proof -
    have a: "?lat0 ! n = oov s lat n" using assms(1) by auto
    have b: "\<And>y. ?lat0[n := y] = lat @ [y]" using assms(1) by auto
    show ?thesis by (simp only: hs a b)
  qed
  finally show ?thesis .
qed

lemma fold_pick_first_min:
  "\<exists>j < length (cur # cs).
      fold pick cs cur = (cur # cs) ! j
    \<and> (\<forall>i < length (cur # cs). pathcost (fold pick cs cur) \<le> pathcost ((cur # cs) ! i))
    \<and> (\<forall>i < j. pathcost (fold pick cs cur) < pathcost ((cur # cs) ! i))"
proof (induction cs rule: rev_induct)
  case Nil
  then show ?case by simp
next
  case (snoc c cs)
  let ?r = "fold pick cs cur"
  from snoc obtain j where j: "j < length (cur # cs)" "?r = (cur # cs) ! j"
    "\<forall>i < length (cur # cs). pathcost ?r \<le> pathcost ((cur # cs) ! i)"
    "\<forall>i < j. pathcost ?r < pathcost ((cur # cs) ! i)" by blast
  have nth_old: "\<And>i. i < length (cur # cs) \<Longrightarrow> (cur # cs @ [c]) ! i = (cur # cs) ! i"
    by (metis append_Cons nth_append)
  have nth_new: "(cur # cs @ [c]) ! length (cur # cs) = c"
    by (metis append_Cons nth_append_length)
  show ?case
  proof (cases "pathcost c < pathcost ?r")
    case True
    then have r: "fold pick (cs @ [c]) cur = c" by (simp add: pick_def)
    have "\<forall>i < length (cur # cs @ [c]). pathcost c \<le> pathcost ((cur # cs @ [c]) ! i)"
    proof (intro allI impI)
      fix i assume "i < length (cur # cs @ [c])"
      then consider "i < length (cur # cs)" | "i = length (cur # cs)" by fastforce
      then show "pathcost c \<le> pathcost ((cur # cs @ [c]) ! i)"
      proof cases
        case 1 then show ?thesis using j(3) True nth_old by fastforce
      next
        case 2 then show ?thesis using nth_new by simp
      qed
    qed
    moreover have "\<forall>i < length (cur # cs). pathcost c < pathcost ((cur # cs @ [c]) ! i)"
      using j(3) True nth_old by fastforce
    moreover have "c = (cur # cs @ [c]) ! length (cur # cs)" using nth_new by simp
    moreover have "length (cur # cs) < length (cur # cs @ [c])" by simp
    ultimately show ?thesis unfolding r by blast
  next
    case False
    then have r: "fold pick (cs @ [c]) cur = ?r" by (simp add: pick_def)
    have "\<forall>i < length (cur # cs @ [c]). pathcost ?r \<le> pathcost ((cur # cs @ [c]) ! i)"
    proof (intro allI impI)
      fix i assume "i < length (cur # cs @ [c])"
      then consider "i < length (cur # cs)" | "i = length (cur # cs)" by fastforce
      then show "pathcost ?r \<le> pathcost ((cur # cs @ [c]) ! i)"
      proof cases
        case 1 then show ?thesis using j(3) nth_old by fastforce
      next
        case 2 then show ?thesis using nth_new False by simp
      qed
    qed
    moreover have "\<forall>i < j. pathcost ?r < pathcost ((cur # cs @ [c]) ! i)"
      using j(1,4) nth_old by fastforce
    moreover have "?r = (cur # cs @ [c]) ! j" using j(1,2) nth_old by simp
    moreover have "j < length (cur # cs @ [c])" using j(1) by simp
    ultimately show ?thesis unfolding r by blast
  qed
qed

lemma entry_ok_append:
  assumes "j < length lat"
  shows "entry_ok s d (lat @ xs) j = entry_ok s d lat j"
proof -
  have a: "(lat @ xs) ! j = lat ! j" using assms by (simp add: nth_append)
  have b: "prev (lat ! j) < j \<Longrightarrow> (lat @ xs) ! prev (lat ! j) = lat ! prev (lat ! j)"
    using assms by (simp add: nth_append)
  show ?thesis unfolding entry_ok_def a using b by auto
qed

lemma relaxed_append:
  assumes "j < length lat"
  shows "relaxed s d maxsym (lat @ xs) j = relaxed s d maxsym lat j"
proof -
  have a: "\<And>i. i \<le> j \<Longrightarrow> (lat @ xs) ! i = lat ! i" using assms by (simp add: nth_append)
  have b: "(lat @ xs) ! j = lat ! j" "(lat @ xs) ! (j - 1) = lat ! (j - 1)" by (simp_all add: a)
  have c: "\<And>m. (lat @ xs) ! (j - m) = lat ! (j - m)" by (simp add: a)
  show ?thesis unfolding relaxed_def b c ..
qed

lemma entry_ok_snoc_oov:
  assumes "length lat = n" "1 \<le> n"
  shows "entry_ok s d (lat @ [oov s lat n]) n"
proof -
  have a: "(lat @ [oov s lat n]) ! n = oov s lat n" using assms by auto
  have b: "(lat @ [oov s lat n]) ! (n - 1) = lat ! (n - 1)" using assms by (simp add: nth_append)
  show ?thesis unfolding entry_ok_def a using assms b by (simp add: oov_def)
qed

lemma entry_ok_snoc_hit:
  assumes "length lat = n" "1 \<le> m" "m \<le> n" "map_of d (slice s (n - m) n) = Some tr"
  shows "entry_ok s d (lat @ [(symcost + pathcost (lat ! (n - m)), n - m, tr, True)]) n"
proof -
  let ?e = "(symcost + pathcost (lat ! (n - m)), n - m, tr, True)"
  have a: "(lat @ [?e]) ! n = ?e" using assms by auto
  have b: "(lat @ [?e]) ! (n - m) = lat ! (n - m)" using assms by (simp add: nth_append)
  have c: "n - m < n" using assms by arith
  show ?thesis unfolding entry_ok_def a using assms(4) b c by simp
qed

lemma relaxed_snoc:
  assumes "length lat = n" "1 \<le> n"
    and "pathcost e \<le> oovcost + pathcost (lat ! (n - 1))"
    and "\<And>m. 1 \<le> m \<Longrightarrow> m \<le> n \<Longrightarrow> m \<le> maxsym \<Longrightarrow> map_of d (slice s (n - m) n) \<noteq> None
           \<Longrightarrow> pathcost e \<le> symcost + pathcost (lat ! (n - m))"
  shows "relaxed s d maxsym (lat @ [e]) n"
proof -
  have a: "(lat @ [e]) ! n = e" using assms(1) by auto
  have b: "\<And>m. 1 \<le> m \<Longrightarrow> (lat @ [e]) ! (n - m) = lat ! (n - m)"
    using assms(1,2) by (simp add: nth_append)
  have c: "(lat @ [e]) ! (n - 1) = lat ! (n - 1)" using b[of 1] by simp
  show ?thesis unfolding relaxed_def a c using assms(3,4) b by auto
qed

lemma lattice_inv_arrive:
  assumes inv: "lattice_inv s d maxsym k lat"
  shows "lattice_inv s d maxsym (k + 1) (arrive s d maxsym (k + 1) lat)"
proof -
  define n where "n = k + 1"
  define ms where "ms = [1 ..< min (n + 1) (maxsym + 1)]"
  define cs where "cs = List.map_filter (hit s d lat n) ms"
  define e where "e = fold pick cs (oov s lat n)"
  have n1: "1 \<le> n" by (simp add: n_def)
  have len: "length lat = n" using inv by (simp add: lattice_inv_def n_def)
  have eq: "arrive s d maxsym n lat = lat @ [e]"
    using arrive_eq[OF len n1] by (simp add: e_def cs_def ms_def)
  obtain j0 where j0: "j0 < length (oov s lat n # cs)" "e = (oov s lat n # cs) ! j0"
    "\<forall>i < length (oov s lat n # cs). pathcost e \<le> pathcost ((oov s lat n # cs) ! i)"
    using fold_pick_first_min[of "oov s lat n" cs] unfolding e_def by blast
  have mem: "e \<in> set (oov s lat n # cs)" using j0(1,2) nth_mem by metis
  have low: "\<forall>c \<in> set (oov s lat n # cs). pathcost e \<le> pathcost c"
    using j0(3) by (metis in_set_conv_nth)
  have ms_iff: "\<And>m. m \<in> set ms \<longleftrightarrow> 1 \<le> m \<and> m \<le> n \<and> m \<le> maxsym"
    by (auto simp: ms_def)
  have ok: "entry_ok s d (lat @ [e]) n"
  proof (cases "e = oov s lat n")
    case True
    then show ?thesis using entry_ok_snoc_oov[OF len n1] by simp
  next
    case False
    then have "e \<in> set cs" using mem by simp
    then obtain m where m: "m \<in> set ms" "hit s d lat n m = Some e"
      by (auto simp: set_map_filter cs_def)
    then obtain tr where tr: "map_of d (slice s (n - m) n) = Some tr"
      "e = (symcost + pathcost (lat ! (n - m)), n - m, tr, True)"
      by (auto simp: hit_def)
    show ?thesis unfolding tr(2)
      using entry_ok_snoc_hit[OF len _ _ tr(1)] m(1) ms_iff by blast
  qed
  have rel: "relaxed s d maxsym (lat @ [e]) n"
  proof (rule relaxed_snoc[OF len n1])
    show "pathcost e \<le> oovcost + pathcost (lat ! (n - 1))"
      using low by (simp add: oov_def)
  next
    fix m assume a: "1 \<le> m" "m \<le> n" "m \<le> maxsym" "map_of d (slice s (n - m) n) \<noteq> None"
    from a(4) obtain tr where tr: "map_of d (slice s (n - m) n) = Some tr" by blast
    have "m \<in> set ms" using a ms_iff by blast
    moreover have "hit s d lat n m = Some (symcost + pathcost (lat ! (n - m)), n - m, tr, True)"
      by (simp add: hit_def tr)
    ultimately have "(symcost + pathcost (lat ! (n - m)), n - m, tr, True) \<in> set cs"
      unfolding cs_def set_map_filter by blast
    then show "pathcost e \<le> symcost + pathcost (lat ! (n - m))" using low by fastforce
  qed
  have old: "entry_ok s d (lat @ [e]) j \<and> relaxed s d maxsym (lat @ [e]) j"
    if "1 \<le> j" "j \<le> k" for j
  proof -
    have "j < length lat" using that len by (simp add: n_def)
    then show ?thesis using inv that
      by (simp add: entry_ok_append relaxed_append lattice_inv_def)
  qed
  have zero: "(lat @ [e]) ! 0 = (0, 0, [], True)"
    using inv len n1 by (simp add: lattice_inv_def nth_append)
  have all: "entry_ok s d (lat @ [e]) j \<and> relaxed s d maxsym (lat @ [e]) j"
    if "1 \<le> j" "j \<le> n" for j
  proof (cases "j = n")
    case True then show ?thesis using ok rel by simp
  next
    case False then show ?thesis using old that by (simp add: n_def)
  qed
  have "lattice_inv s d maxsym n (lat @ [e])"
    unfolding lattice_inv_def using len zero all by simp
  then show ?thesis using eq by (simp add: n_def)
qed

lemma lattice_inv_fold:
  "lattice_inv s d maxsym k (fold (arrive s d maxsym) [1 ..< k + 1] [(0, 0, [], True)])"
proof (induction k)
  case 0
  then show ?case by (simp add: lattice_inv_def)
next
  case (Suc k)
  have "[1 ..< Suc k + 1] = [1 ..< k + 1] @ [k + 1]" by simp
  then have "fold (arrive s d maxsym) [1 ..< Suc k + 1] [(0, 0, [], True)] =
        arrive s d maxsym (k + 1) (fold (arrive s d maxsym) [1 ..< k + 1] [(0, 0, [], True)])"
    by (simp only: fold_append fold.simps o_apply id_apply)
  then show ?case using lattice_inv_arrive[OF Suc] by simp
qed

lemma build_lattice_inv: "lattice_inv s d maxsym (length s) (build_lattice s d maxsym)"
  unfolding build_lattice_def by (rule lattice_inv_fold)

lemma py_max_bound:
  assumes "py_max xs = Inr m"
  shows "\<forall>x \<in> set xs. x \<le> m"
proof (cases xs)
  case Nil
  then show ?thesis by simp
next
  case (Cons y ys)
  have "Max (set (y # ys)) = fold max ys y" by (rule Max.set_eq_fold)
  then have "m = Max (set (y # ys))" using assms Cons by simp
  then show ?thesis using Cons by simp
qed

lemma py_max_nonempty: "xs \<noteq> [] \<Longrightarrow> \<exists>m. py_max xs = Inr m"
  by (cases xs) simp_all

lemma key_length_bound:
  assumes "py_max (map (\<lambda>k. length k) (map fst d)) = Inr maxsym" "map_of d k = Some v"
  shows "length k \<le> maxsym"
proof -
  have "k \<in> set (map fst d)" using assms(2) by (metis map_of_SomeD set_zip_leftD zip_map_fst_snd)
  then show ?thesis using py_max_bound[OF assms(1)] by auto
qed

lemma path_cost_snoc: "path_cost (tf @ [fl]) = path_cost tf + (if fl then symcost else oovcost)"
  by (simp add: path_cost_def)

lemma split_last_piece:
  assumes "pre @ seg = take n s" "n \<le> length s"
  shows "pre = take (n - length seg) s" "seg = slice s (n - length seg) n" "length seg \<le> n"
proof -
  have len: "length pre + length seg = n" using assms by (metis length_append length_take min.absorb2)
  then show "length seg \<le> n" by simp
  have "take (length pre) (pre @ seg) = take (length pre) (take n s)" using assms(1) by simp
  then show "pre = take (n - length seg) s" using len by auto
  have "drop (length pre) (pre @ seg) = drop (length pre) (take n s)" using assms(1) by simp
  then have "seg = take (n - length pre) (drop (length pre) s)" by (simp add: drop_take)
  then show "seg = slice s (n - length seg) n" using len unfolding slice_def
    by (metis add_diff_cancel_left' add_diff_cancel_right')
qed

lemma lattice_lower_bound:
  assumes inv: "lattice_inv s d maxsym N lat"
    and keys: "\<forall>k v. map_of d k = Some v \<longrightarrow> length k \<le> maxsym"
  shows "n \<le> N \<Longrightarrow> n \<le> length s \<Longrightarrow> decomposition d (take n s) segs
         \<Longrightarrow> pathcost (lat ! n) \<le> path_cost (map snd segs)"
proof (induction segs arbitrary: n rule: rev_induct)
  case Nil
  then have "n = 0" by (auto simp: decomposition_def)
  then show ?case using inv by (simp add: lattice_inv_def)
next
  case (snoc x segs)
  obtain seg fl where x: "x = (seg, fl)" by (cases x)
  let ?m = "length seg"
  have cat: "concat (map fst segs) @ seg = take n s"
    and valid: "valid_piece d (seg, fl)" and rest: "list_all (valid_piece d) segs"
    using snoc.prems(3) by (simp_all add: decomposition_def x)
  note sp = split_last_piece[OF cat snoc.prems(2)]
  have m1: "1 \<le> ?m" using valid by (cases fl) (simp_all add: Suc_le_eq)
  have n1: "1 \<le> n" using m1 sp(3) by simp
  have dec: "decomposition d (take (n - ?m) s) segs"
    using sp(1) rest by (simp add: decomposition_def)
  have IH: "pathcost (lat ! (n - ?m)) \<le> path_cost (map snd segs)"
    using snoc.IH[OF _ _ dec] snoc.prems(1,2) by simp
  have rel: "relaxed s d maxsym lat n" using inv n1 snoc.prems(1) by (simp add: lattice_inv_def)
  show ?case
  proof (cases fl)
    case True
    then have key: "map_of d seg \<noteq> None" using valid by simp
    then have "?m \<le> maxsym" using keys by blast
    then have "pathcost (lat ! n) \<le> symcost + pathcost (lat ! (n - ?m))"
      using rel m1 sp(2,3) key unfolding relaxed_def by metis
    then show ?thesis using IH True by (simp add: x path_cost_snoc)
  next
    case False
    then have "?m = 1" using valid by simp
    then have "pathcost (lat ! n) \<le> oovcost + pathcost (lat ! (n - ?m))"
      using rel unfolding relaxed_def by simp
    then show ?thesis using IH False by (simp add: x path_cost_snoc)
  qed
qed

text \<open>The back-trace returns, and what it returns is a path through valid entries.\<close>

lemma backtrace_path:
  assumes inv: "lattice_inv s d maxsym N lat" and N: "N \<le> length s"
  shows "n \<le> N \<Longrightarrow>
     \<exists>ps :: ('c str \<times> 'c str \<times> bool) list.
        backtrace lat n tls tfs = Some (tls @ rev (map (fst \<circ> snd) ps), tfs @ rev (map (snd \<circ> snd) ps))
      \<and> concat (map fst ps) = take n s
      \<and> (\<forall>(seg, tr, fl) \<in> set ps.
            if fl then seg \<noteq> [] \<and> map_of d seg = Some tr else length seg = 1 \<and> tr = seg)
      \<and> path_cost (map (snd \<circ> snd) ps) = pathcost (lat ! n)"
proof (induction n arbitrary: tls tfs rule: less_induct)
  case (less n)
  show ?case
  proof (cases "n = 0")
    case True
    have "backtrace lat 0 tls tfs = Some (tls, tfs)" by (subst backtrace.simps) simp
    moreover have "pathcost (lat ! 0) = 0" using inv by (simp add: lattice_inv_def)
    ultimately show ?thesis using True
      by (intro exI[of _ "[]"]) (simp add: path_cost_def)
  next
    case False
    then have n1: "1 \<le> n" by simp
    define p where "p = prev (lat ! n)"
    define tr where "tr = symbol (lat ! n)"
    define fl where "fl = translated (lat ! n)"
    have ok: "entry_ok s d lat n" using inv n1 less.prems by (simp add: lattice_inv_def)
    have pn: "p < n" using ok by (simp add: entry_ok_def p_def)
    have nlen: "n \<le> length s" using less.prems N by simp
    have seglen: "length (slice s p n) = n - p" using nlen pn by (simp add: slice_def)
    have step: "backtrace lat n tls tfs = backtrace lat p (tls @ [tr]) (tfs @ [fl])"
      using False by (subst backtrace.simps) (simp add: p_def tr_def fl_def)
    obtain ps where ps:
      "backtrace lat p (tls @ [tr]) (tfs @ [fl]) =
         Some ((tls @ [tr]) @ rev (map (fst \<circ> snd) ps), (tfs @ [fl]) @ rev (map (snd \<circ> snd) ps))"
      "concat (map fst ps) = take p s"
      "\<forall>(seg, tr, fl) \<in> set ps.
            if fl then seg \<noteq> [] \<and> map_of d seg = Some tr else length seg = 1 \<and> tr = seg"
      "path_cost (map (snd \<circ> snd) ps) = pathcost (lat ! p)"
    proof -
      have pN: "p \<le> N" using pn less.prems by simp
      show ?thesis using less.IH[OF pn pN, of "tls @ [tr]" "tfs @ [fl]"] that by blast
    qed
    let ?ps = "ps @ [(slice s p n, tr, fl)]"
    have 1: "backtrace lat n tls tfs =
        Some (tls @ rev (map (fst \<circ> snd) ?ps), tfs @ rev (map (snd \<circ> snd) ?ps))"
      using step ps(1) by simp
    have "take p s @ slice s p n = take n s"
      using pn unfolding slice_def by (metis le_add_diff_inverse less_imp_le_nat take_add)
    then have 2: "concat (map fst ?ps) = take n s" using ps(2) by simp
    have piece: "if fl then slice s p n \<noteq> [] \<and> map_of d (slice s p n) = Some tr
                 else length (slice s p n) = 1 \<and> tr = slice s p n"
    proof (cases fl)
      case True
      have "slice s p n \<noteq> []" using seglen pn by auto
      then show ?thesis using ok True by (simp add: entry_ok_def p_def tr_def fl_def)
    next
      case False
      then have "p = n - 1" "tr = slice s (n - 1) n"
        using ok by (simp_all add: entry_ok_def p_def tr_def fl_def)
      then show ?thesis using False seglen n1 by simp
    qed
    have 3: "\<forall>(seg, tr, fl) \<in> set ?ps.
            if fl then seg \<noteq> [] \<and> map_of d seg = Some tr else length seg = 1 \<and> tr = seg"
      using ps(3) piece by auto
    have "pathcost (lat ! n) = (if fl then symcost else oovcost) + pathcost (lat ! p)"
      using ok by (simp add: entry_ok_def p_def fl_def)
    then have 4: "path_cost (map (snd \<circ> snd) ?ps) = pathcost (lat ! n)"
      using ps(4) by (simp add: path_cost_snoc)
    show ?thesis using 1 2 3 4 by blast
  qed
qed

lemma translate_string_result:
  assumes mx: "py_max (map (\<lambda>k. length k) (map fst d)) = Inr maxsym"
  shows "\<exists>ps :: ('c str \<times> 'c str \<times> bool) list.
        translate_string s d = Some (Inr (map (fst \<circ> snd) ps, map (snd \<circ> snd) ps))
      \<and> concat (map fst ps) = s
      \<and> (\<forall>(seg, tr, fl) \<in> set ps.
            if fl then seg \<noteq> [] \<and> map_of d seg = Some tr else length seg = 1 \<and> tr = seg)
      \<and> path_cost (map (snd \<circ> snd) ps) = pathcost (build_lattice s d maxsym ! length s)"
proof -
  obtain ps where ps:
    "backtrace (build_lattice s d maxsym) (length s) [] [] =
       Some ([] @ rev (map (fst \<circ> snd) ps), [] @ rev (map (snd \<circ> snd) ps))"
    "concat (map fst ps) = take (length s) s"
    "\<forall>(seg, tr, fl) \<in> set ps.
       if fl then seg \<noteq> [] \<and> map_of d seg = Some tr else length seg = 1 \<and> tr = seg"
    "path_cost (map (snd \<circ> snd) ps) = pathcost (build_lattice s d maxsym ! length s)"
    using backtrace_path[OF build_lattice_inv order_refl order_refl, of s d maxsym "[]" "[]"]
    by blast
  have "translate_string s d = Some (Inr (map (fst \<circ> snd) ps, map (snd \<circ> snd) ps))"
    unfolding translate_string_def mx using ps(1) by (simp add: rev_map)
  moreover have "concat (map fst ps) = s" using ps(2) by simp
  ultimately show ?thesis using ps(3,4) by blast
qed

lemma pieces_decomposition:
  assumes "\<forall>(seg, tr, fl) \<in> set ps.
            if fl then seg \<noteq> [] \<and> map_of d seg = Some tr else length seg = 1 \<and> tr = seg"
  shows "list_all (valid_piece d) (zip (map fst ps) (map (snd \<circ> snd) ps))"
  using assms by (induction ps) auto

lemma decomposition_witness_cost:
  assumes inv: "lattice_inv s d maxsym N lat" and "N \<le> length s" "n \<le> N"
  shows "\<exists>segs. decomposition d (take n s) segs \<and> path_cost (map snd segs) = pathcost (lat ! n)"
proof -
  obtain ps where ps:
    "concat (map fst ps) = take n s"
    "\<forall>(seg, tr, fl) \<in> set ps.
       if fl then seg \<noteq> [] \<and> map_of d seg = Some tr else length seg = 1 \<and> tr = seg"
    "path_cost (map (snd \<circ> snd) ps) = pathcost (lat ! n)"
    using backtrace_path[OF assms, of "[]" "[]"] by blast
  let ?segs = "zip (map fst ps) (map (snd \<circ> snd) ps)"
  have "map fst ?segs = map fst ps" "map snd ?segs = map (snd \<circ> snd) ps" by simp_all
  then have "decomposition d (take n s) ?segs \<and> path_cost (map snd ?segs) = pathcost (lat ! n)"
    unfolding decomposition_def using ps pieces_decomposition[OF ps(2)] by simp
  then show ?thesis by blast
qed

text \<open>
  Claim C1, for a table with at least one key. \<open>translate_string(s, d)\<close> returns a pair
  \<open>(tl, ttf)\<close> of equal length, and \<open>s\<close> splits into as many consumed substrings
  \<open>segs\<close>, in order, such that a symbol flagged \<open>True\<close> is \<open>d[k]\<close> for the key \<open>k\<close>
  that is its consumed substring, and a symbol flagged \<open>False\<close> is its consumed substring,
  a single character of \<open>s\<close>. The empty input gives two empty sequences.
\<close>

theorem translate_string_segments:
  assumes "d \<noteq> []"
  shows "\<exists>tl ttf segs.
        translate_string s d = Some (Inr (tl, ttf))
      \<and> length ttf = length tl \<and> length segs = length tl
      \<and> concat segs = s
      \<and> (\<forall>i < length tl.
            if ttf ! i then segs ! i \<noteq> [] \<and> map_of d (segs ! i) = Some (tl ! i)
            else length (segs ! i) = 1 \<and> tl ! i = segs ! i)
      \<and> (s = [] \<longrightarrow> tl = [] \<and> ttf = [])"
proof -
  have "map (\<lambda>k. length k) (map fst d) \<noteq> []" using assms by simp
  then obtain maxsym where mx: "py_max (map (\<lambda>k. length k) (map fst d)) = Inr maxsym"
    using py_max_nonempty by blast
  obtain ps where ps:
    "translate_string s d = Some (Inr (map (fst \<circ> snd) ps, map (snd \<circ> snd) ps))"
    "concat (map fst ps) = s"
    "\<forall>(seg, tr, fl) \<in> set ps.
       if fl then seg \<noteq> [] \<and> map_of d seg = Some tr else length seg = 1 \<and> tr = seg"
    using translate_string_result[OF mx] by blast
  let ?tl = "map (fst \<circ> snd) ps" and ?ttf = "map (snd \<circ> snd) ps" and ?segs = "map fst ps"
  have each: "\<forall>i < length ?tl.
      if ?ttf ! i then ?segs ! i \<noteq> [] \<and> map_of d (?segs ! i) = Some (?tl ! i)
      else length (?segs ! i) = 1 \<and> ?tl ! i = ?segs ! i"
  proof (intro allI impI)
    fix i assume "i < length ?tl"
    then have i: "i < length ps" by simp
    obtain seg tr fl where p: "ps ! i = (seg, tr, fl)" by (cases "ps ! i")
    have "(seg, tr, fl) \<in> set ps" using i p nth_mem by metis
    then have "if fl then seg \<noteq> [] \<and> map_of d seg = Some tr else length seg = 1 \<and> tr = seg"
      using ps(3) by blast
    then show "if ?ttf ! i then ?segs ! i \<noteq> [] \<and> map_of d (?segs ! i) = Some (?tl ! i)
      else length (?segs ! i) = 1 \<and> ?tl ! i = ?segs ! i" using i p by simp
  qed
  have lens: "length ?ttf = length ?tl" "length ?segs = length ?tl" by simp_all
  have empty: "s = [] \<longrightarrow> ?tl = [] \<and> ?ttf = []"
  proof
    assume s: "s = []"
    have "ps = []"
    proof (rule ccontr)
      assume "ps \<noteq> []"
      then obtain seg tr fl where mem: "(seg, tr, fl) \<in> set ps"
        by (metis last_in_set prod_cases3)
      then have "seg \<noteq> []" using ps(3) by (cases fl) auto
      moreover have "seg = []" using ps(2) s mem by force
      ultimately show False by simp
    qed
    then show "?tl = [] \<and> ?ttf = []" by simp
  qed
  show ?thesis using ps(1) lens ps(2) each empty by blast
qed

theorem translate_string_segments_witness:
  "[(''ab'', ''X'')] \<noteq> []
   \<and> (\<exists>tl ttf segs. translate_string ''ab'' [(''ab'', ''X'')] = Some (Inr (tl, ttf))
         \<and> length ttf = length tl \<and> length segs = length tl \<and> concat segs = ''ab'')
   \<and> translate_string ''ab'' [(''ab'', ''X'')] = Some (Inr ([''X''], [True]))"
proof -
  have ne: "[(''ab'', ''X'')] \<noteq> []" by simp
  have ev: "translate_string ''ab'' [(''ab'', ''X'')] = Some (Inr ([''X''], [True]))"
    by code_simp
  show ?thesis using ne ev translate_string_segments [OF ne, of "''ab''"] by blast
qed

lemma relax_strict:
  assumes "relax s d n m lattice \<noteq> lattice"
  shows "\<exists>tr. map_of d (slice s (n - m) n) = Some tr
           \<and> symcost + pathcost (lattice ! (n - m)) < pathcost (lattice ! n)
           \<and> relax s d n m lattice
               = lattice[n := (symcost + pathcost (lattice ! (n - m)), n - m, tr, True)]"
  using assms by (cases "map_of d (slice s (n - m) n)") (auto simp: relax_def split: if_splits)

lemma fold_arrive_Suc:
  "fold (arrive s d maxsym) [1 ..< Suc k + 1] [(0, 0, [], True)] =
     arrive s d maxsym (k + 1) (fold (arrive s d maxsym) [1 ..< k + 1] [(0, 0, [], True)])"
proof -
  have "[1 ..< Suc k + 1] = [1 ..< k + 1] @ [k + 1]" by simp
  then show ?thesis by (simp only: fold_append fold.simps o_apply id_apply)
qed

lemma fold_arrive_length:
  "length (fold (arrive s d maxsym) [1 ..< k + 1] [(0, 0, [], True)]) = k + 1"
  using lattice_inv_fold[of s d maxsym k] unfolding lattice_inv_def by blast

lemma fold_arrive_snoc:
  "fold (arrive s d maxsym) [1 ..< Suc k + 1] [(0, 0, [], True)] =
     fold (arrive s d maxsym) [1 ..< k + 1] [(0, 0, [], True)]
     @ [fold pick (tl (candidates s d maxsym (k + 1) (fold (arrive s d maxsym) [1 ..< k + 1] [(0, 0, [], True)])))
          (hd (candidates s d maxsym (k + 1) (fold (arrive s d maxsym) [1 ..< k + 1] [(0, 0, [], True)])))]"
  unfolding fold_arrive_Suc candidates_def list.sel
  by (rule arrive_eq) (rule fold_arrive_length, simp)

lemma fold_arrive_prefix:
  "j \<le> k \<Longrightarrow> take (j + 1) (fold (arrive s d maxsym) [1 ..< k + 1] [(0, 0, [], True)])
         = fold (arrive s d maxsym) [1 ..< j + 1] [(0, 0, [], True)]"
proof (induction k)
  case 0
  then show ?case by simp
next
  case (Suc k)
  show ?case
  proof (cases "j = Suc k")
    case True
    then show ?thesis using fold_arrive_length[of s d maxsym "Suc k"] by simp
  next
    case False
    then have jk: "j \<le> k" using Suc.prems by simp
    have "take (j + 1) (fold (arrive s d maxsym) [1 ..< Suc k + 1] [(0, 0, [], True)])
        = take (j + 1) (fold (arrive s d maxsym) [1 ..< k + 1] [(0, 0, [], True)])"
      unfolding fold_arrive_snoc using jk fold_arrive_length[of s d maxsym k] by simp
    then show ?thesis using Suc.IH[OF jk] by simp
  qed
qed

lemma candidates_cong:
  assumes "\<And>i. i < n \<Longrightarrow> lat ! i = lat' ! i" "1 \<le> n"
  shows "candidates s d maxsym n lat = candidates s d maxsym n lat'"
proof -
  have a: "oov s lat n = oov s lat' n" using assms by (simp add: oov_def)
  have "\<forall>m \<in> set [1 ..< min (n + 1) (maxsym + 1)]. hit s d lat n m = hit s d lat' n m"
  proof
    fix m assume "m \<in> set [1 ..< min (n + 1) (maxsym + 1)]"
    then have "n - m < n" using assms(2) by auto
    then show "hit s d lat n m = hit s d lat' n m" using assms(1) by (simp add: hit_def)
  qed
  then show ?thesis unfolding candidates_def a using map_filter_cong_set by blast
qed

text \<open>
  Claim C3. The record that \<open>translate_string\<close> leaves at position \<open>n\<close> is the first
  candidate of least cost in the order of the scan (the untranslatable-singleton record,
  then the keys by ascending length \<open>m\<close>): every candidate before it costs strictly
  more, and none costs less. A table hit changes the lattice only when its total cost is
  strictly less than the recorded one.
\<close>

theorem arrival_first_minimum:
  assumes "1 \<le> n" "n \<le> length s"
  shows "(\<exists>j < length (candidates s d maxsym n (build_lattice s d maxsym)).
            build_lattice s d maxsym ! n = candidates s d maxsym n (build_lattice s d maxsym) ! j
          \<and> (\<forall>i < length (candidates s d maxsym n (build_lattice s d maxsym)).
                pathcost (build_lattice s d maxsym ! n)
                  \<le> pathcost (candidates s d maxsym n (build_lattice s d maxsym) ! i))
          \<and> (\<forall>i < j.
                pathcost (build_lattice s d maxsym ! n)
                  < pathcost (candidates s d maxsym n (build_lattice s d maxsym) ! i)))
       \<and> (\<forall>m lattice. relax s d n m lattice \<noteq> lattice \<longrightarrow>
             symcost + pathcost (lattice ! (n - m)) < pathcost (lattice ! n))"
proof -
  define L where "L = build_lattice s d maxsym"
  define k where "k = n - 1"
  define P where "P = fold (arrive s d maxsym) [1 ..< k + 1] [(0, 0, [], True)]"
  have n: "n = Suc k" using assms(1) by (simp add: k_def)
  define e where "e = fold pick (tl (candidates s d maxsym n P)) (hd (candidates s d maxsym n P))"
  have lenP: "length P = n" using fold_arrive_length[of s d maxsym k] by (simp add: P_def n)
  have "take (n + 1) L = fold (arrive s d maxsym) [1 ..< n + 1] [(0, 0, [], True)]"
    unfolding L_def build_lattice_def using fold_arrive_prefix[OF assms(2)] .
  also have "\<dots> = P @ [e]"
    using fold_arrive_snoc[of s d maxsym k] by (simp add: n P_def e_def)
  finally have tk: "take (n + 1) L = P @ [e]" .
  have nth: "\<And>i. i \<le> n \<Longrightarrow> L ! i = (P @ [e]) ! i"
    by (metis tk nth_take less_Suc_eq_le Suc_eq_plus1)
  have Ln: "L ! n = e" using nth[of n] lenP by (metis nth_append_length order_refl)
  have "candidates s d maxsym n L = candidates s d maxsym n P"
  proof (rule candidates_cong[OF _ assms(1)])
    fix i assume "i < n"
    then show "L ! i = P ! i" using nth[of i] lenP by (simp add: nth_append)
  qed
  then have cs: "candidates s d maxsym n L = hd (candidates s d maxsym n P) # tl (candidates s d maxsym n P)"
    by (simp add: candidates_def)
  have "\<exists>j < length (candidates s d maxsym n L).
            L ! n = candidates s d maxsym n L ! j
          \<and> (\<forall>i < length (candidates s d maxsym n L).
                pathcost (L ! n) \<le> pathcost (candidates s d maxsym n L ! i))
          \<and> (\<forall>i < j. pathcost (L ! n) < pathcost (candidates s d maxsym n L ! i))"
    unfolding Ln cs e_def by (rule fold_pick_first_min)
  moreover have "\<forall>m lattice. relax s d n m lattice \<noteq> lattice \<longrightarrow>
             symcost + pathcost (lattice ! (n - m)) < pathcost (lattice ! n)"
    using relax_strict by blast
  ultimately show ?thesis unfolding L_def by blast
qed

theorem arrival_first_minimum_witness:
  "(1::nat) \<le> 3 \<and> 3 \<le> length ''xab''
   \<and> (\<exists>j. build_lattice ''xab'' [(''xa'', ''P''), (''ab'', ''Q'')] 2 ! 3
            = candidates ''xab'' [(''xa'', ''P''), (''ab'', ''Q'')] 2 3
                (build_lattice ''xab'' [(''xa'', ''P''), (''ab'', ''Q'')] 2) ! j)
   \<and> candidates ''xab'' [(''xa'', ''P''), (''ab'', ''Q'')] 2 3
         (build_lattice ''xab'' [(''xa'', ''P''), (''ab'', ''Q'')] 2)
       = [(11, 2, ''b'', False), (11, 1, ''Q'', True)]
   \<and> build_lattice ''xab'' [(''xa'', ''P''), (''ab'', ''Q'')] 2 ! 3 = (11, 2, ''b'', False)"
proof -
  have a: "(1::nat) \<le> 3" and b: "3 \<le> length ''xab''" by simp_all
  have c: "candidates ''xab'' [(''xa'', ''P''), (''ab'', ''Q'')] 2 3
         (build_lattice ''xab'' [(''xa'', ''P''), (''ab'', ''Q'')] 2)
       = [(11, 2, ''b'', False), (11, 1, ''Q'', True)]" by code_simp
  have e: "build_lattice ''xab'' [(''xa'', ''P''), (''ab'', ''Q'')] 2 ! 3 = (11, 2, ''b'', False)"
    by code_simp
  show ?thesis
    using a b c e arrival_first_minimum [OF a b, of "[(''xa'', ''P''), (''ab'', ''Q'')]" 2]
    by blast
qed

text \<open>
  Claim C2. Whenever \<open>translate_string(s, d)\<close> returns (and it does for every table with a
  key), the flags it returns are those of a decomposition of \<open>s\<close>, and no decomposition
  of \<open>s\<close> has a smaller path cost, a hit costing 1 and a miss 10. For every prefix length
  \<open>n\<close> the cost recorded at \<open>lattice[n]\<close> is the cost of some decomposition of the
  first \<open>n\<close> characters and a lower bound of the cost of all of them.
\<close>

theorem translate_string_min_cost:
  "(d \<noteq> [] \<longrightarrow> (\<exists>tl ttf. translate_string s d = Some (Inr (tl, ttf))))
 \<and> (\<forall>tl ttf. translate_string s d = Some (Inr (tl, ttf)) \<longrightarrow>
        (\<exists>segs. length segs = length ttf \<and> decomposition d s (zip segs ttf))
      \<and> (\<forall>segs. decomposition d s segs \<longrightarrow> path_cost ttf \<le> path_cost (map snd segs)))
 \<and> (\<forall>maxsym n. py_max (map (\<lambda>k. length k) (map fst d)) = Inr maxsym \<and> n \<le> length s \<longrightarrow>
        (\<exists>segs. decomposition d (take n s) segs
               \<and> path_cost (map snd segs) = pathcost (build_lattice s d maxsym ! n))
      \<and> (\<forall>segs. decomposition d (take n s) segs \<longrightarrow>
               pathcost (build_lattice s d maxsym ! n) \<le> path_cost (map snd segs)))"
proof (intro conjI allI impI)
  assume "d \<noteq> []"
  then have "map (\<lambda>k. length k) (map fst d) \<noteq> []" by simp
  then obtain maxsym where "py_max (map (\<lambda>k. length k) (map fst d)) = Inr maxsym"
    using py_max_nonempty by blast
  then show "\<exists>tl ttf. translate_string s d = Some (Inr (tl, ttf))"
    using translate_string_result by blast
next
  fix tl ttf assume r: "translate_string s d = Some (Inr (tl, ttf))"
  then obtain maxsym where mx: "py_max (map (\<lambda>k. length k) (map fst d)) = Inr maxsym"
    by (cases "py_max (map (\<lambda>k. length k) (map fst d))") (auto simp: translate_string_def)
  obtain ps where ps:
    "translate_string s d = Some (Inr (map (fst \<circ> snd) ps, map (snd \<circ> snd) ps))"
    "concat (map fst ps) = s"
    "\<forall>(seg, tr, fl) \<in> set ps.
       if fl then seg \<noteq> [] \<and> map_of d seg = Some tr else length seg = 1 \<and> tr = seg"
    "path_cost (map (snd \<circ> snd) ps) = pathcost (build_lattice s d maxsym ! length s)"
    using translate_string_result[OF mx] by blast
  have ttf: "ttf = map (snd \<circ> snd) ps" using r ps(1) by simp
  have "decomposition d s (zip (map fst ps) ttf)"
    unfolding decomposition_def ttf using ps(2) pieces_decomposition[OF ps(3)] by simp
  moreover have "length (map fst ps) = length ttf" by (simp add: ttf)
  ultimately show "\<exists>segs. length segs = length ttf \<and> decomposition d s (zip segs ttf)" by blast
  fix segs assume "decomposition d s segs"
  then have "decomposition d (take (length s) s) segs" by simp
  moreover have keys: "\<forall>k v. map_of d k = Some v \<longrightarrow> length k \<le> maxsym"
    using key_length_bound[OF mx] by blast
  ultimately have "pathcost (build_lattice s d maxsym ! length s) \<le> path_cost (map snd segs)"
    using lattice_lower_bound[OF build_lattice_inv[of s d maxsym] keys order_refl order_refl]
    by blast
  then show "path_cost ttf \<le> path_cost (map snd segs)" using ps(4) ttf by simp
next
  fix maxsym n
  assume a: "py_max (map (\<lambda>k. length k) (map fst d)) = Inr maxsym \<and> n \<le> length s"
  show "\<exists>segs. decomposition d (take n s) segs
               \<and> path_cost (map snd segs) = pathcost (build_lattice s d maxsym ! n)"
    using decomposition_witness_cost[OF build_lattice_inv[of s d maxsym] order_refl] a by blast
  have mx: "py_max (map (\<lambda>k. length k) (map fst d)) = Inr maxsym" using a by simp
  have keys: "\<forall>k v. map_of d k = Some v \<longrightarrow> length k \<le> maxsym"
    using key_length_bound[OF mx] by blast
  fix segs assume "decomposition d (take n s) segs"
  then show "pathcost (build_lattice s d maxsym ! n) \<le> path_cost (map snd segs)"
    using lattice_lower_bound[OF build_lattice_inv[of s d maxsym] keys, of n segs] a
    by blast
qed

theorem translate_string_min_cost_witness:
  "translate_string ''ab'' [(''ab'', ''X'')] = Some (Inr ([''X''], [True]))
   \<and> decomposition [(''ab'', ''X'')] ''ab'' [(''a'', False), (''b'', False)]
   \<and> path_cost [True] \<le> path_cost (map snd [(''a'', False), (''b'', False)])
   \<and> path_cost [True] = 1 \<and> path_cost [False, False] = 20"
proof -
  have ev: "translate_string ''ab'' [(''ab'', ''X'')] = Some (Inr ([''X''], [True]))"
    by code_simp
  have dec: "decomposition [(''ab'', ''X'')] ''ab'' [(''a'', False), (''b'', False)]"
    by (simp add: decomposition_def)
  have le: "path_cost [True] \<le> path_cost (map snd [(''a'', False), (''b'', False)])"
    using ev dec translate_string_min_cost [of "[(''ab'', ''X'')]" "''ab''"] by blast
  have "path_cost [True] = 1" "path_cost [False, False] = 20"
    by (simp_all add: path_cost_def symcost_def oovcost_def)
  then show ?thesis using ev dec le by blast
qed

text \<open>
  Claim C8 says that an empty table makes every character untranslatable. The first
  statement of the function after the constants is \<open>max(len(k) for k in d.keys())\<close>,
  which raises ValueError on an empty table, for every input string.
\<close>

theorem translate_string_empty_table_raises:
  "translate_string s [] = Some (Inl MaxEmptySequence) \<and> class_of MaxEmptySequence = ValueError"
  by (simp add: translate_string_def)

text \<open>
  Claim C1 is stated for every table. At the empty table the call raises, also on the
  empty input, where the claim promises two empty sequences.
\<close>

theorem translate_string_empty_input_empty_table:
  "translate_string ([] :: char list) [] = Some (Inl MaxEmptySequence)"
  by (simp add: translate_string_def)

end

